theory Spec2Isabelle
  imports Main "HOL-Library.Sublist"
begin

section \<open>Strings of the terminal front-end\<close>

text \<open>
  A JavaScript string is a sequence of code units. The model uses \<^typ>\<open>string\<close>
  (a list of \<^typ>\<open>char\<close>), one \<^typ>\<open>char\<close> per code unit, which covers the
  code units below 256 (ASCII and Latin-1); every literal the source compares against is
  ASCII. \<open>String.prototype.trim\<close> removes white space and line terminators at both
  ends; below 256 these are TAB, LF, VT, FF, CR, SPACE and NBSP.
\<close>

definition isWhiteSpace :: "char \<Rightarrow> bool" where
  "isWhiteSpace c \<longleftrightarrow>
     c = CHR 0x09 \<or> c = CHR 0x0A \<or> c = CHR 0x0B \<or> c = CHR 0x0C \<or> c = CHR 0x0D \<or>
     c = CHR 0x20 \<or> c = CHR 0xA0"

definition trim :: "string \<Rightarrow> string" where
  "trim s = rev (dropWhile isWhiteSpace (rev (dropWhile isWhiteSpace s)))"

text \<open>
  \<open>String.prototype.toLowerCase\<close> on code units below 256: \<open>A\<close>..\<open>Z\<close> and the
  Latin-1 capitals U+00C0..U+00DE (without the multiplication sign U+00D7) move up by 32.
\<close>

definition lowerChar :: "char \<Rightarrow> char" where
  "lowerChar c =
     (let n = (of_char c :: nat) in
      if (65 \<le> n \<and> n \<le> 90) \<or> (192 \<le> n \<and> n \<le> 222 \<and> n \<noteq> 215)
      then char_of (n + 32) else c)"

definition toLowerCase :: "string \<Rightarrow> string" where
  "toLowerCase s = map lowerChar s"

text \<open>\<open>s.startsWith(p)\<close>.\<close>

definition startsWith :: "string \<Rightarrow> string \<Rightarrow> bool" where
  "startsWith s p \<longleftrightarrow> prefix p s"

text \<open>
  \<open>s.split(sep)\<close> for a one-character separator: the result is never empty
  (\<open>''''.split(' ')\<close> is \<open>['']\<close>), and \<open>parts.join(sep)\<close>.
\<close>

fun splitOn :: "char \<Rightarrow> string \<Rightarrow> string list" where
  "splitOn sep [] = [[]]"
| "splitOn sep (c # cs) =
     (if c = sep then [] # splitOn sep cs
      else (c # hd (splitOn sep cs)) # tl (splitOn sep cs))"

fun joinWith :: "string \<Rightarrow> string list \<Rightarrow> string" where
  "joinWith sep [] = []"
| "joinWith sep [w] = w"
| "joinWith sep (w # v # ws) = w @ sep @ joinWith sep (v # ws)"

section \<open>Application state (App component)\<close>

datatype sender = USER | AI | SYSTEM

text \<open>
  A \<open>Message\<close>. The \<open>id\<close> and \<open>timestamp\<close> fields come from the wall clock
  (\<open>Date.now()\<close>) and are only render keys; the model leaves them out. The optional
  field \<open>isStreaming\<close> is \<open>False\<close> when absent.
\<close>

record message =
  msgText :: string
  sender :: sender
  isStreaming :: bool

text \<open>The result object of \<open>executeFileSystemCommand\<close>: output text and optional new path.\<close>

record fs_result =
  outputText :: string
  newPath :: "string option"

text \<open>
  A callback handed to \<open>setTimeout\<close>: append a message, run the automatic \<open>ls\<close> in a
  directory, or the reboot that ends the \<open>sudo rm -rf\<close> sequence.
\<close>

datatype timer_action = ShowMessage message | AutoLs string | Reboot

text \<open>
  The hooks and refs of \<open>App\<close> that the message handler, the Tab handler and the
  typewriter loop read or write. \<open>timers\<close> holds the pending \<open>setTimeout\<close> calls with
  their delays in milliseconds. Theme, mute and boot flags, sound and DOM focus play no
  part in these handlers' state and are left out.
\<close>

datatype chat_mode = terminal | assistant

record app_state =
  chatMode :: chat_mode
  currentPath :: string
  history :: "string list"
  historyIndex :: int
  messages :: "message list"
  inputValue :: string
  isProcessing :: bool
  shouldAutoScroll :: bool
  streamingBuffer :: string
  isNetworkStreaming :: bool
  isTypewriterActive :: bool
  timers :: "(nat \<times> timer_action) list"

definition userMessage :: "string \<Rightarrow> message" where
  "userMessage userText = \<lparr>msgText = userText, sender = USER, isStreaming = False\<rparr>"

definition systemMessage :: "string \<Rightarrow> message" where
  "systemMessage t = \<lparr>msgText = t, sender = SYSTEM, isStreaming = False\<rparr>"

definition aiPlaceholder :: message where
  "aiPlaceholder = \<lparr>msgText = [], sender = AI, isStreaming = True\<rparr>"

definition huntText :: string where
  \<open>huntText =
     ''>>> SCAVENGER HUNT INITIATED <<<\<newline>\<newline>OBJECTIVE: Locate the encrypted reward file hidden within the filesystem.\<newline>\<newline>INSTRUCTIONS:\<newline>1. Use "ls" to list files in the current directory.\<newline>2. Use "cd [folder_name]" to navigate folders.\<newline>3. Use "cd .." to go back up one level.\<newline>4. Use "cat [filename]" to read files.\<newline>\<newline>HINT: The prize is buried deep. Check system configurations or logs. Beware of fake winning folders.''\<close>

definition sudoSequence :: "(nat \<times> timer_action) list" where
  "sudoSequence =
     [(600, ShowMessage (systemMessage ''AUTHENTICATING ROOT...'')),
      (1200, ShowMessage (systemMessage ''ACCESS GRANTED.'')),
      (1800, ShowMessage (systemMessage ''DELETING /bin...'')),
      (2400, ShowMessage (systemMessage ''DELETING /usr...'')),
      (2900, ShowMessage (systemMessage ''DELETING /etc...'')),
      (3500, ShowMessage (systemMessage ''CRITICAL ERROR: KERNEL PANIC. SYSTEM HALTED.''))]"

section \<open>The message handler (handleSendMessage)\<close>

text \<open>The history update: append, then keep the last 50 entries.\<close>

definition addToHistory :: "string list \<Rightarrow> string \<Rightarrow> string list" where
  "addToHistory prev userText =
     (let newHistory = prev @ [userText] in
      if length newHistory > 50 then drop (length newHistory - 50) newHistory
      else newHistory)"

text \<open>Which branch of the handler ran; \<open>Remote\<close> carries the text sent to the chat service.\<close>

datatype route = Ignored | Reset | RbxHunt | FileSystem fs_result | SudoRm | Remote string

text \<open>
  The synchronous part of \<open>handleSendMessage\<close>, up to the \<open>await\<close> of the remote call.
  \<open>executeFileSystemCommand\<close> lives in \<open>utils/fileSystem\<close>, whose source is not part of
  the files at hand, so it is the parameter \<open>fs\<close> (\<open>None\<close> is the \<open>null\<close> result).
\<close>

definition handleSendMessage ::
  "(string \<Rightarrow> string \<Rightarrow> fs_result option) \<Rightarrow> app_state \<Rightarrow> route \<times> app_state" where
  "handleSendMessage fs s =
     (if trim (inputValue s) = [] \<or> isProcessing s then (Ignored, s)
      else
        let userText = inputValue s;
            command = trim userText;
            commandLower = toLowerCase command;
            s1 = s\<lparr>history := addToHistory (history s) userText, historyIndex := - 1\<rparr>
        in
        if commandLower = ''clear'' then
          (Reset, s1\<lparr>inputValue := [], messages := []\<rparr>)
        else if commandLower = ''rbx hunt'' then
          (RbxHunt,
           s1\<lparr>inputValue := [],
              messages := messages s1 @ [userMessage userText],
              shouldAutoScroll := True,
              timers := timers s1 @ [(100, ShowMessage (systemMessage huntText))]\<rparr>)
        else
          (case fs command (currentPath s) of
            Some fsResult \<Rightarrow>
              let s2 = s1\<lparr>inputValue := [],
                         messages := messages s1 @ [userMessage userText],
                         shouldAutoScroll := True\<rparr>;
                  s3 = (if outputText fsResult \<noteq> []
                        then s2\<lparr>timers := timers s2 @
                                 [(100, ShowMessage (systemMessage (outputText fsResult)))]\<rparr>
                        else s2);
                  s4 = (case newPath fsResult of
                          None \<Rightarrow> s3
                        | Some newDir \<Rightarrow>
                            if newDir = [] then s3
                            else
                              let s3' = s3\<lparr>currentPath := newDir\<rparr> in
                              if commandLower = ''cd'' \<or> startsWith commandLower ''cd ''
                              then s3'\<lparr>timers := timers s3' @ [(1000, AutoLs newDir)]\<rparr>
                              else s3')
              in (FileSystem fsResult, s4)
          | None \<Rightarrow>
              if commandLower = ''sudo rm -rf'' \<or> startsWith commandLower ''sudo rm -rf /''
              then
                (SudoRm,
                 s1\<lparr>inputValue := [],
                    isProcessing := True,
                    isTypewriterActive := False,
                    messages := messages s1 @ [userMessage userText],
                    shouldAutoScroll := True,
                    timers := timers s1 @ sudoSequence @ [(5000, Reboot)]\<rparr>)
              else
                (Remote userText,
                 s1\<lparr>inputValue := [],
                    isProcessing := True,
                    isNetworkStreaming := True,
                    isTypewriterActive := True,
                    streamingBuffer := [],
                    messages := messages s1 @ [userMessage userText, aiPlaceholder],
                    shouldAutoScroll := True\<rparr>)))"

section \<open>The typewriter loop\<close>

text \<open>\<open>SPEED CONTROL\<close>: characters taken per tick for a buffer of the given length.\<close>

definition charsToTake :: "nat \<Rightarrow> nat" where
  "charsToTake bufferLen = (if bufferLen > 150 then 3 else if bufferLen > 50 then 2 else 1)"

text \<open>The two \<open>setMessages\<close> updaters of the interval callback.\<close>

definition appendToStreaming :: "string \<Rightarrow> message list \<Rightarrow> message list" where
  "appendToStreaming chunk prev =
     (if prev \<noteq> [] \<and> isStreaming (last prev)
      then butlast prev @ [(last prev)\<lparr>msgText := msgText (last prev) @ chunk\<rparr>]
      else prev)"

definition finishStreaming :: "message list \<Rightarrow> message list" where
  "finishStreaming prev =
     (if prev \<noteq> [] \<and> isStreaming (last prev)
      then butlast prev @ [(last prev)\<lparr>isStreaming := False\<rparr>]
      else prev)"

text \<open>
  What one run of the interval callback did: revealed a chunk, reached the end of the
  stream, or found the buffer empty while the network is still streaming. The callback's
  sound counter, its forced scroll and its focus timer change none of the state above.
\<close>

datatype tick_result = Revealed string | Terminal | Idle

definition typewriterTick :: "app_state \<Rightarrow> tick_result \<times> app_state" where
  "typewriterTick s =
     (if length (streamingBuffer s) > 0 then
        let bufferLen = length (streamingBuffer s);
            n = charsToTake bufferLen;
            chunk = take n (streamingBuffer s)
        in (Revealed chunk,
            s\<lparr>streamingBuffer := drop n (streamingBuffer s),
              messages := appendToStreaming chunk (messages s)\<rparr>)
      else if \<not> isNetworkStreaming s \<and> length (streamingBuffer s) = 0 then
        (Terminal,
         s\<lparr>isProcessing := False, messages := finishStreaming (messages s)\<rparr>)
      else (Idle, s))"

text \<open>
  The effect installs the interval only while \<open>isProcessing && isTypewriterActive.current\<close>
  and its cleanup clears it when \<open>isProcessing\<close> changes.
\<close>

definition intervalArmed :: "app_state \<Rightarrow> bool" where
  "intervalArmed s \<longleftrightarrow> isProcessing s \<and> isTypewriterActive s"

section \<open>The remote stream (try / catch / finally of handleSendMessage)\<close>

text \<open>
  A value thrown by the remote call: an \<open>Error\<close> with its message, or anything else.
  The stream yields chunks, whose \<open>text\<close> may be undefined, or throws.
\<close>

datatype thrown = ErrorObject string | NonError

datatype stream_item = Chunk "string option" | Throws thrown

text \<open>One iteration inside \<open>try\<close>: \<open>streamingBuffer.current += chunk.text || ''\<close>.\<close>

definition tryBody :: "app_state \<Rightarrow> stream_item \<Rightarrow> thrown + app_state" where
  "tryBody s item =
     (case item of
        Chunk t \<Rightarrow>
          Inr (s\<lparr>streamingBuffer :=
                   streamingBuffer s @ (case t of None \<Rightarrow> [] | Some chunkText \<Rightarrow> chunkText)\<rparr>)
      | Throws e \<Rightarrow> Inl e)"

definition errorFragment :: "thrown \<Rightarrow> string" where
  "errorFragment e =
     ''\<newline>[ERROR: CONNECTION FAILED - '' @
     (case e of ErrorObject m \<Rightarrow> m | NonError \<Rightarrow> ''UNKNOWN'') @ '']''"

definition catchBlock :: "app_state \<Rightarrow> thrown \<Rightarrow> app_state" where
  "catchBlock s e = s\<lparr>streamingBuffer := streamingBuffer s @ errorFragment e\<rparr>"

definition finallyBlock :: "app_state \<Rightarrow> app_state" where
  "finallyBlock s = s\<lparr>isNetworkStreaming := False\<rparr>"

text \<open>
  The events of the stream itself: it delivers an item, it ends, or the interval fires.
  A thrown item runs \<open>catch\<close> and \<open>finally\<close> at once. What else can happen while a
  reply streams (the mode button, a pending timer) is added by \<open>appStep\<close> below.
\<close>

datatype stream_event = Source stream_item | SourceDone | Tick

definition streamStep :: "app_state \<Rightarrow> stream_event \<Rightarrow> app_state" where
  "streamStep s ev =
     (case ev of
        Source item \<Rightarrow>
          (case tryBody s item of
             Inr s' \<Rightarrow> s'
           | Inl e \<Rightarrow> finallyBlock (catchBlock s e))
      | SourceDone \<Rightarrow> finallyBlock s
      | Tick \<Rightarrow> if intervalArmed s then snd (typewriterTick s) else s)"

definition runStream :: "app_state \<Rightarrow> stream_event list \<Rightarrow> app_state" where
  "runStream s evs = foldl streamStep s evs"

text \<open>The text an event adds to the pending buffer.\<close>

definition appended :: "stream_event \<Rightarrow> string" where
  "appended ev =
     (case ev of
        Source (Chunk None) \<Rightarrow> []
      | Source (Chunk (Some chunkText)) \<Rightarrow> chunkText
      | Source (Throws e) \<Rightarrow> errorFragment e
      | SourceDone \<Rightarrow> []
      | Tick \<Rightarrow> [])"

text \<open>The text of the last message: what the typewriter has revealed of the reply.\<close>

definition revealed :: "app_state \<Rightarrow> string" where
  "revealed s = (if messages s = [] then [] else msgText (last (messages s)))"

text \<open>Ticks needed to empty a backlog of the given length under \<open>charsToTake\<close>.\<close>

function drainTicks :: "nat \<Rightarrow> nat" where
  "drainTicks n = (if n = 0 then 0 else Suc (drainTicks (n - charsToTake n)))"
  by pat_completeness auto
termination
  by (relation "measure (\<lambda>n. n)") (auto simp: charsToTake_def)

declare drainTicks.simps [simp del]

text \<open>
  What holds of a reply while it streams: there is a last message, it is the streaming
  placeholder as long as the interval is armed, and its text followed by the pending
  buffer is everything appended so far.
\<close>

definition streamInv :: "app_state \<Rightarrow> string \<Rightarrow> bool" where
  "streamInv s whole \<longleftrightarrow>
     messages s \<noteq> [] \<and> (intervalArmed s \<longrightarrow> isStreaming (last (messages s))) \<and>
     revealed s @ streamingBuffer s = whole"

section \<open>Other events while a reply streams\<close>

text \<open>
  \<open>toggleMode\<close>, the handler of the header's mode button: it switches the chat mode
  and appends a system message. The button is never disabled, so it can run while a
  reply streams. The call into the chat service (\<open>switchChatMode\<close>) is outside the state.
\<close>

definition toggleMode :: "app_state \<Rightarrow> app_state" where
  "toggleMode s =
     (let newMode = (if chatMode s = terminal then assistant else terminal);
          modeDisplayName = (if newMode = terminal then ''ENDEAVOUR_OS'' else ''GEMINI_LINK'');
          modeLoadingMsg = (if newMode = terminal then ''LOADING SHELL ENVIRONMENT...''
                            else ''ESTABLISHING NEURAL LINK...'');
          sysMsg = systemMessage
            (''SWITCHING SYSTEM TO: '' @ modeDisplayName @ ''...\<newline>'' @ modeLoadingMsg)
      in s\<lparr>chatMode := newMode, messages := messages s @ [sysMsg]\<rparr>)"

text \<open>
  The callbacks handed to \<open>setTimeout\<close> by the message handler: a delayed message, the
  automatic \<open>ls\<close> after \<open>cd\<close>, and the reboot after the \<open>sudo rm -rf\<close> sequence.
\<close>

definition rebootMessage :: message where
  "rebootMessage =
     systemMessage ''SYSTEM REBOOT...\<newline>INITIALIZING SYSTEM...\<newline>CONNECTION ESTABLISHED.''"

definition runTimer ::
  "(string \<Rightarrow> string \<Rightarrow> fs_result option) \<Rightarrow> timer_action \<Rightarrow> app_state \<Rightarrow> app_state" where
  "runTimer fs action s =
     (case action of
        ShowMessage m \<Rightarrow> s\<lparr>messages := messages s @ [m], shouldAutoScroll := True\<rparr>
      | AutoLs newDir \<Rightarrow>
          (case fs ''ls'' newDir of
             None \<Rightarrow> s
           | Some lsResult \<Rightarrow>
               if outputText lsResult \<noteq> []
               then s\<lparr>messages := messages s @ [systemMessage (outputText lsResult)],
                      shouldAutoScroll := True\<rparr>
               else s)
      | Reboot \<Rightarrow>
          s\<lparr>messages := [rebootMessage], isProcessing := False,
            currentPath := ''/home/operator''\<rparr>)"

text \<open>
  The pending timer at position \<open>i\<close> fires: its callback runs and it is no longer
  pending. Time itself is not modelled, so any pending timer may be the next to fire.
\<close>

definition fireTimer ::
  "(string \<Rightarrow> string \<Rightarrow> fs_result option) \<Rightarrow> nat \<Rightarrow> app_state \<Rightarrow> app_state" where
  "fireTimer fs i s =
     (if i < length (timers s)
      then runTimer fs (snd (timers s ! i))
             (s\<lparr>timers := take i (timers s) @ drop (Suc i) (timers s)\<rparr>)
      else s)"

text \<open>
  Everything that can happen between two submissions: an event of the stream, a click on
  the mode button, or a pending timer firing.
\<close>

datatype app_event = Stream stream_event | ToggleMode | Fire nat

definition appStep ::
  "(string \<Rightarrow> string \<Rightarrow> fs_result option) \<Rightarrow> app_state \<Rightarrow> app_event \<Rightarrow> app_state" where
  "appStep fs s ev =
     (case ev of
        Stream e \<Rightarrow> streamStep s e
      | ToggleMode \<Rightarrow> toggleMode s
      | Fire i \<Rightarrow> fireTimer fs i s)"

definition runApp ::
  "(string \<Rightarrow> string \<Rightarrow> fs_result option) \<Rightarrow> app_state \<Rightarrow> app_event list \<Rightarrow> app_state" where
  "runApp fs s evs = foldl (appStep fs) s evs"

section \<open>Tab completion (handleKeyDown, Tab branch)\<close>

text \<open>
  \<open>getFileSystemCompletions\<close> is the parameter \<open>complete\<close> (its source is in
  \<open>utils/fileSystem\<close>, not at hand). The result pairs the lookup that was made, if any,
  with the new state.
\<close>

definition handleTab ::
  "(string \<Rightarrow> string \<Rightarrow> string list) \<Rightarrow> app_state \<Rightarrow> string list option \<times> app_state" where
  "handleTab complete s =
     (let parts = splitOn CHR '' '' (inputValue s);
          partial = last parts
      in if length partial > 0 then
           let matches = complete partial (currentPath s) in
           if length matches = 1 then
             (Some matches, s\<lparr>inputValue := joinWith '' '' (butlast parts @ [matches ! 0])\<rparr>)
           else (Some matches, s)
         else (None, s))"

section \<open>Command classes of the router\<close>

text \<open>
  The four classes of the command router, and the class of each branch of the handler.
  \<open>classify_spec\<close> is the router as the specification words it: reset first, then the
  scripted sequences, then the virtual filesystem, else the remote chat. The two scripted
  sequences are the ones the handler knows, \<open>rbx hunt\<close> and \<open>sudo rm -rf\<close>.
\<close>

datatype classification = ResetCommand | EasterEgg | FilesystemCommand | RemoteChat

definition isEasterEgg :: "string \<Rightarrow> bool" where
  "isEasterEgg commandLower \<longleftrightarrow>
     commandLower = ''rbx hunt'' \<or> commandLower = ''sudo rm -rf'' \<or>
     startsWith commandLower ''sudo rm -rf /''"

definition classify_spec ::
  "(string \<Rightarrow> string \<Rightarrow> fs_result option) \<Rightarrow> string \<Rightarrow> string \<Rightarrow> classification" where
  "classify_spec fs command path =
     (if toLowerCase command = ''clear'' then ResetCommand
      else if isEasterEgg (toLowerCase command) then EasterEgg
      else if fs command path \<noteq> None then FilesystemCommand
      else RemoteChat)"


fun routeClass :: "route \<Rightarrow> classification option" where
  "routeClass Ignored = None"
| "routeClass Reset = Some ResetCommand"
| "routeClass RbxHunt = Some EasterEgg"
| "routeClass (FileSystem r) = Some FilesystemCommand"
| "routeClass SudoRm = Some EasterEgg"
| "routeClass (Remote t) = Some RemoteChat"

section \<open>Virtual filesystem\<close>

text \<open>
  Modelled from the spec: command parsing of \<open>utils/fileSystem\<close> (source missing) is
  white-space tokenised and runs of white space collapse.
\<close>

function tokens :: "string \<Rightarrow> string list" where
  "tokens s =
     (let rest = dropWhile isWhiteSpace s in
      if rest = [] then []
      else takeWhile (\<lambda>c. \<not> isWhiteSpace c) rest #
           tokens (dropWhile (\<lambda>c. \<not> isWhiteSpace c) rest))"
  by pat_completeness auto
termination
proof (relation "measure length")
  show "wf (measure length)" by simp
next
  fix s rest :: string
  assume r: "rest = dropWhile isWhiteSpace s" and ne: "rest \<noteq> []"
  from ne obtain c cs where cs: "rest = c # cs" by (cases rest) auto
  from r ne have "\<not> isWhiteSpace (hd rest)"
    using hd_dropWhile [of isWhiteSpace s] by simp
  with cs have "\<not> isWhiteSpace c" by simp
  then have "length (dropWhile (\<lambda>c. \<not> isWhiteSpace c) rest) \<le> length cs"
    using cs length_dropWhile_le [of "\<lambda>c. \<not> isWhiteSpace c" cs] by simp
  moreover have "length rest \<le> length s"
    using r length_dropWhile_le [of isWhiteSpace s] by simp
  ultimately show "(dropWhile (\<lambda>c. \<not> isWhiteSpace c) rest, s) \<in> measure length"
    using cs by simp
qed

declare tokens.simps [simp del]

text \<open>
  Modelled from the spec: the verb of a command line is its first token, and the
  recognised verbs are \<open>ls\<close>, \<open>cd\<close>, \<open>cat\<close>, \<open>pwd\<close> and \<open>whoami\<close>.
\<close>

definition commandVerb :: "string \<Rightarrow> string" where
  "commandVerb commandLine = (case tokens commandLine of [] \<Rightarrow> [] | verb # args \<Rightarrow> verb)"

definition fsVerbs :: "string list" where
  "fsVerbs = [''ls'', ''cd'', ''cat'', ''pwd'', ''whoami'']"

text \<open>
  Modelled from the spec: the contract of \<open>execute\<close> (\<open>executeFileSystemCommand\<close> of
  \<open>utils/fileSystem\<close>, whose source is missing) that the router relies on. The result is
  \<open>null\<close> when the command is not one of the recognised filesystem verbs; the verb is
  compared in lower case, which allows a case-sensitive as well as a case-insensitive
  implementation.
\<close>

definition recognisesOnlyFsVerbs :: "(string \<Rightarrow> string \<Rightarrow> fs_result option) \<Rightarrow> bool" where
  "recognisesOnlyFsVerbs fs \<longleftrightarrow>
     (\<forall>commandLine path.
        fs commandLine path \<noteq> None \<longrightarrow> toLowerCase (commandVerb commandLine) \<in> set fsVerbs)"

text \<open>
  Modelled from the spec: the directory tree, path resolution and the \<open>cd\<close> verb of the
  Virtual Filesystem (\<open>utils/fileSystem\<close>, whose source is missing). A directory holds
  its children as an ordered mapping from name to node; a file holds its content.
\<close>

datatype fs_node = FileNode string | DirNode "(string \<times> fs_node) list"

datatype fs_error = NotFound | NotADirectory | IsADirectory

text \<open>
  Modelled from the spec: a path is an absolute, slash-delimited string; its normal form
  has no empty segment and no trailing slash, except for the root \<open>/\<close>.
\<close>

definition splitPath :: "string \<Rightarrow> string list" where
  "splitPath p = filter (\<lambda>seg. seg \<noteq> []) (splitOn CHR ''/'' p)"

definition joinPath :: "string list \<Rightarrow> string" where
  "joinPath segs = CHR ''/'' # joinWith ''/'' segs"

text \<open>
  Modelled from the spec: walking named children from the root; a missing child is
  \<open>NotFound\<close>, descending into a file is \<open>NotADirectory\<close>.
\<close>

fun lookupNode :: "fs_node \<Rightarrow> string list \<Rightarrow> fs_error + fs_node" where
  "lookupNode node [] = Inr node"
| "lookupNode (FileNode content) (seg # segs) = Inl NotADirectory"
| "lookupNode (DirNode children) (seg # segs) =
     (case map_of children seg of
        None \<Rightarrow> Inl NotFound
      | Some child \<Rightarrow> lookupNode child segs)"

text \<open>
  Modelled from the spec: the segments of an argument are resolved one by one. \<open>.\<close>
  stays, \<open>..\<close> goes to the parent and stays at the root when there is none, any other
  segment descends into the child of that name, which must exist.
\<close>

fun resolveSegments :: "fs_node \<Rightarrow> string list \<Rightarrow> string list \<Rightarrow> fs_error + string list" where
  "resolveSegments tree here [] =
     (case lookupNode tree here of Inl e \<Rightarrow> Inl e | Inr node \<Rightarrow> Inr here)"
| "resolveSegments tree here (seg # segs) =
     (if seg = ''.'' then resolveSegments tree here segs
      else if seg = ''..'' then resolveSegments tree (butlast here) segs
      else (case lookupNode tree (here @ [seg]) of
              Inl e \<Rightarrow> Inl e
            | Inr node \<Rightarrow> resolveSegments tree (here @ [seg]) segs))"

text \<open>
  Modelled from the spec: \<open>resolvePath(currentPath, argument)\<close>, for absolute (leading
  slash) and relative arguments; it fails when a segment does not resolve in the tree.
\<close>

definition resolvePath :: "fs_node \<Rightarrow> string \<Rightarrow> string \<Rightarrow> fs_error + string" where
  "resolvePath tree cwd argument =
     (let start = (if startsWith argument ''/'' then [] else splitPath cwd)
      in case resolveSegments tree start (splitPath argument) of
           Inl e \<Rightarrow> Inl e
         | Inr target \<Rightarrow> Inr (joinPath target))"

text \<open>
  Modelled from the spec: the filesystem as the command interpreter sees it. The spec
  fixes neither the wording of error lines nor the rendering of \<open>ls\<close>, \<open>cat\<close>, \<open>pwd\<close>
  and \<open>whoami\<close>, so these are fields; \<open>homePath\<close> is the configured home path.
\<close>

record vfs =
  root :: fs_node
  homePath :: string
  formatError :: "fs_error \<Rightarrow> string \<Rightarrow> string"
  otherVerb :: "string \<Rightarrow> string list \<Rightarrow> string \<Rightarrow> fs_result"

text \<open>
  Modelled from the spec: \<open>cd\<close>. Without an argument it returns to the home path; with
  one it resolves it, and the target must be a directory. A failure is formatted text
  with no new path.
\<close>

definition cd :: "vfs \<Rightarrow> string list \<Rightarrow> string \<Rightarrow> fs_result" where
  "cd v args cwd =
     (case args of
        [] \<Rightarrow> \<lparr>outputText = [], newPath = Some (homePath v)\<rparr>
      | argument # others \<Rightarrow>
          (case resolvePath (root v) cwd argument of
             Inl e \<Rightarrow> \<lparr>outputText = formatError v e argument, newPath = None\<rparr>
           | Inr p \<Rightarrow>
               (case lookupNode (root v) (splitPath p) of
                  Inr (DirNode children) \<Rightarrow> \<lparr>outputText = [], newPath = Some p\<rparr>
                | Inr (FileNode content) \<Rightarrow>
                    \<lparr>outputText = formatError v NotADirectory argument, newPath = None\<rparr>
                | Inl e \<Rightarrow> \<lparr>outputText = formatError v e argument, newPath = None\<rparr>)))"

text \<open>
  Modelled from the spec: \<open>execute(commandLine, currentPath)\<close>; \<open>None\<close> (the \<open>null\<close>
  result) when the first token is not a filesystem verb.
\<close>

definition execute :: "vfs \<Rightarrow> string \<Rightarrow> string \<Rightarrow> fs_result option" where
  "execute v commandLine cwd =
     (case tokens commandLine of
        [] \<Rightarrow> None
      | verb # args \<Rightarrow>
          if verb = ''cd'' then Some (cd v args cwd)
          else if verb \<in> set fsVerbs then Some (otherVerb v verb args cwd)
          else None)"

section \<open>Sample inputs\<close>

text \<open>
  Concrete states, a concrete filesystem and concrete event sequences on which the
  theorems below are instantiated.
\<close>

definition sampleState :: app_state where
  "sampleState =
     \<lparr>chatMode = terminal, currentPath = ''/home/operator'', history = [], historyIndex = - 1, messages = [],
      inputValue = [], isProcessing = False, shouldAutoScroll = True, streamingBuffer = [],
      isNetworkStreaming = False, isTypewriterActive = False, timers = []\<rparr>"

definition sampleVfs :: vfs where
  "sampleVfs =
     \<lparr>root = DirNode [(''home'', DirNode [(''operator'',
               DirNode [(''docs'', DirNode []), (''readme.txt'', FileNode ''hello'')])])],
      homePath = ''/home/operator'',
      formatError = (\<lambda>e argument. ''cd: '' @ argument),
      otherVerb = (\<lambda>verb args cwd. \<lparr>outputText = verb, newPath = None\<rparr>)\<rparr>"

definition sampleComplete :: "string \<Rightarrow> string \<Rightarrow> string list" where
  "sampleComplete partialName path =
     filter (\<lambda>name. startsWith name partialName) [''docs'', ''downloads'', ''readme.txt'']"

definition helloState :: app_state where
  "helloState = sampleState\<lparr>inputValue := ''hello''\<rparr>"

definition helloStart :: app_state where
  "helloStart = snd (handleSendMessage (execute sampleVfs) helloState)"

definition burst :: "stream_event list" where
  "burst = [Source (Chunk (Some (replicate 200 CHR ''a'')))]"

definition halting :: "stream_event list" where
  "halting = [Source (Chunk (Some ''Hel'')), Tick, Source (Chunk None),
              Source (Chunk (Some ''lo'')), Tick, Tick]"

definition clearWhileStreaming :: app_state where
  "clearWhileStreaming =
     (runStream helloStart [Source (Chunk (Some ''abcd'')), Tick])\<lparr>inputValue := ''clear''\<rparr>"

definition clearWhileIdle :: app_state where
  "clearWhileIdle =
     sampleState\<lparr>inputValue := '' CLEAR '', history := [''ls''],
       messages := [userMessage ''ls'']\<rparr>"


definition oneChildComplete :: "string \<Rightarrow> string \<Rightarrow> string list" where
  "oneChildComplete partialName path =
     filter (\<lambda>name. startsWith name partialName) [''docs'']"

text \<open>
  Two ways a message gets behind the streaming placeholder while a reply streams: the
  mode button is clicked after the first chunk has arrived, or \<open>hello\<close> is submitted
  right after \<open>cd docs\<close> and the automatic \<open>ls\<close> fires after the first chunk.
\<close>

definition toggledMidStream :: app_state where
  "toggledMidStream =
     runApp (execute sampleVfs) helloStart [Stream (Source (Chunk (Some ''abc''))), ToggleMode]"

definition cdThenHello :: app_state where
  "cdThenHello =
     snd (handleSendMessage (execute sampleVfs)
       ((snd (handleSendMessage (execute sampleVfs) (sampleState\<lparr>inputValue := ''cd docs''\<rparr>)))
          \<lparr>inputValue := ''hello''\<rparr>))"

definition autoLsMidStream :: app_state where
  "autoLsMidStream =
     runApp (execute sampleVfs) cdThenHello [Stream (Source (Chunk (Some ''abc''))), Fire 0]"

section \<open>Auxiliary lemmas\<close>

subsection \<open>Characters and tokens\<close>

lemma char_eq_nat: "c = d \<longleftrightarrow> (of_char c :: nat) = of_char d"
  by simp

lemma isWhiteSpace_nat:
  "isWhiteSpace c \<longleftrightarrow> (of_char c :: nat) \<in> {9, 10, 11, 12, 13, 32, 160}"
  unfolding isWhiteSpace_def by (simp add: char_eq_nat [of c])

lemma of_char_lowerChar:
  "(of_char (lowerChar c) :: nat) =
     (let n = of_char c in
      if (65 \<le> n \<and> n \<le> 90) \<or> (192 \<le> n \<and> n \<le> 222 \<and> n \<noteq> 215) then n + 32 else n)"
  by (auto simp: lowerChar_def Let_def)

lemma isWhiteSpace_lowerChar: "isWhiteSpace (lowerChar c) = isWhiteSpace c"
  unfolding isWhiteSpace_nat of_char_lowerChar by (auto simp: Let_def)

lemma toLowerCase_takeWhile:
  "toLowerCase (takeWhile (\<lambda>c. \<not> isWhiteSpace c) s) = takeWhile (\<lambda>c. \<not> isWhiteSpace c) (toLowerCase s)"
  by (simp add: toLowerCase_def takeWhile_map comp_def isWhiteSpace_lowerChar)

lemma toLowerCase_dropWhile:
  "toLowerCase (dropWhile isWhiteSpace s) = dropWhile isWhiteSpace (toLowerCase s)"
  by (simp add: toLowerCase_def dropWhile_map comp_def isWhiteSpace_lowerChar)

lemma commandVerb_eq:
  "commandVerb s = takeWhile (\<lambda>c. \<not> isWhiteSpace c) (dropWhile isWhiteSpace s)"
proof (cases "dropWhile isWhiteSpace s = []")
  case True
  then have "tokens s = []" by (subst tokens.simps) simp
  then show ?thesis unfolding commandVerb_def True by simp
next
  case False
  then have "tokens s =
      takeWhile (\<lambda>c. \<not> isWhiteSpace c) (dropWhile isWhiteSpace s) #
      tokens (dropWhile (\<lambda>c. \<not> isWhiteSpace c) (dropWhile isWhiteSpace s))"
    by (subst tokens.simps) (simp only: Let_def if_False)
  then show ?thesis unfolding commandVerb_def by simp
qed

lemma toLowerCase_commandVerb:
  "toLowerCase (commandVerb s) = commandVerb (toLowerCase s)"
  by (simp add: commandVerb_eq toLowerCase_takeWhile toLowerCase_dropWhile)

lemma sudo_verb:
  assumes "toLowerCase c = ''sudo rm -rf'' \<or> startsWith (toLowerCase c) ''sudo rm -rf /''"
  shows "toLowerCase (commandVerb c) = ''sudo''"
proof -
  from assms obtain r where "toLowerCase c = ''sudo rm -rf'' @ r"
    by (auto simp: startsWith_def prefix_def)
  then have "commandVerb (toLowerCase c) = ''sudo''"
    by (simp add: commandVerb_eq isWhiteSpace_def)
  then show ?thesis
    by (simp only: toLowerCase_commandVerb)
qed

lemma sudo_not_fs:
  assumes "recognisesOnlyFsVerbs fs"
    and "toLowerCase c = ''sudo rm -rf'' \<or> startsWith (toLowerCase c) ''sudo rm -rf /''"
  shows "fs c p = None"
proof (rule ccontr)
  assume "fs c p \<noteq> None"
  with assms(1) have "toLowerCase (commandVerb c) \<in> set fsVerbs"
    unfolding recognisesOnlyFsVerbs_def by blast
  with sudo_verb [OF assms(2)] show False by (simp add: fsVerbs_def)
qed

lemma execute_recognises: "recognisesOnlyFsVerbs (execute v)"
  unfolding recognisesOnlyFsVerbs_def
proof (intro allI impI)
  fix commandLine path
  assume a: "execute v commandLine path \<noteq> None"
  then have "commandVerb commandLine \<in> set fsVerbs"
    by (auto simp: execute_def commandVerb_def fsVerbs_def split: list.splits if_splits)
  then have "toLowerCase (commandVerb commandLine) = commandVerb commandLine"
    by (auto simp: fsVerbs_def toLowerCase_def lowerChar_def)
  with \<open>commandVerb commandLine \<in> set fsVerbs\<close>
  show "toLowerCase (commandVerb commandLine) \<in> set fsVerbs" by simp
qed

lemma splitOn_nonempty: "splitOn sep x \<noteq> []"
  by (induction x) simp_all

lemma joinWith_Cons_hd: "joinWith sep ((c # w) # ws) = c # joinWith sep (w # ws)"
  by (cases ws) simp_all

lemma joinWith_splitOn: "joinWith [sep] (splitOn sep x) = x"
proof (induction x)
  case Nil
  then show ?case by simp
next
  case (Cons c cs)
  obtain w ws where r: "splitOn sep cs = w # ws"
    using splitOn_nonempty [of sep cs] by (cases "splitOn sep cs") auto
  with Cons show ?case by (simp add: joinWith_Cons_hd)
qed

lemma resolve_parent_of_root: "resolvePath tree ''/'' ''..'' = Inr ''/''"
  by (simp add: resolvePath_def startsWith_def splitPath_def joinPath_def)

lemma tokens_cd_parent: "tokens ''cd ..'' = [''cd'', ''..'']"
  by code_simp

subsection \<open>One tick of the typewriter\<close>

lemma charsToTake_pos: "0 < charsToTake n"
  by (simp add: charsToTake_def)

lemma tick_reveal:
  assumes "streamingBuffer s \<noteq> []" and "messages s \<noteq> []" and "isStreaming (last (messages s))"
  shows "typewriterTick s =
           (Revealed (take (charsToTake (length (streamingBuffer s))) (streamingBuffer s)),
            s\<lparr>streamingBuffer := drop (charsToTake (length (streamingBuffer s))) (streamingBuffer s),
              messages := butlast (messages s) @
                [(last (messages s))\<lparr>msgText := msgText (last (messages s)) @
                    take (charsToTake (length (streamingBuffer s))) (streamingBuffer s)\<rparr>]\<rparr>)"
  using assms by (simp add: typewriterTick_def appendToStreaming_def Let_def)

lemma tick_buffer:
  "streamingBuffer (snd (typewriterTick s)) =
     drop (charsToTake (length (streamingBuffer s))) (streamingBuffer s)"
  by (simp add: typewriterTick_def Let_def)

lemma tick_flags:
  "isNetworkStreaming (snd (typewriterTick s)) = isNetworkStreaming s"
  "isTypewriterActive (snd (typewriterTick s)) = isTypewriterActive s"
  "streamingBuffer s \<noteq> [] \<Longrightarrow> isProcessing (snd (typewriterTick s)) = isProcessing s"
  by (simp_all add: typewriterTick_def Let_def)

lemma terminal_tick:
  assumes "\<not> isNetworkStreaming s" and "streamingBuffer s = []"
  shows "typewriterTick s =
           (Terminal, s\<lparr>isProcessing := False, messages := finishStreaming (messages s)\<rparr>)"
  using assms by (simp add: typewriterTick_def)

lemma finishStreaming_idem: "finishStreaming (finishStreaming ms) = finishStreaming ms"
  by (simp add: finishStreaming_def)

lemma revealed_finish: "revealed (s\<lparr>isProcessing := False, messages := finishStreaming (messages s)\<rparr>) = revealed s"
  by (simp add: revealed_def finishStreaming_def)

subsection \<open>Runs of stream events\<close>

lemma runStream_Cons: "runStream s (ev # evs) = runStream (streamStep s ev) evs"
  by (simp add: runStream_def)

lemma runStream_Nil: "runStream s [] = s"
  by (simp add: runStream_def)

lemma runStream_snoc: "runStream s (evs @ [ev]) = streamStep (runStream s evs) ev"
  by (simp add: runStream_def)

lemma runStream_append: "runStream s (evs @ evs') = runStream (runStream s evs) evs'"
  by (simp add: runStream_def)

lemma streamInv_step:
  assumes "streamInv s whole"
  shows "streamInv (streamStep s ev) (whole @ appended ev)"
proof (cases ev)
  case (Source item)
  with assms show ?thesis
    by (cases item)
      (auto simp: streamInv_def streamStep_def tryBody_def catchBlock_def finallyBlock_def
        appended_def intervalArmed_def revealed_def split: option.splits)
next
  case SourceDone
  with assms show ?thesis
    by (auto simp: streamInv_def streamStep_def finallyBlock_def appended_def
        intervalArmed_def revealed_def)
next
  case Tick
  show ?thesis
  proof (cases "intervalArmed s")
    case False
    with assms Tick show ?thesis
      by (simp add: streamStep_def appended_def)
  next
    case True
    with assms have ms: "messages s \<noteq> []" "isStreaming (last (messages s))"
      and wh: "revealed s @ streamingBuffer s = whole"
      by (auto simp: streamInv_def)
    show ?thesis
    proof (cases "streamingBuffer s = []")
      case False
      from tick_reveal [OF False ms] True wh ms Tick show ?thesis
        by (simp add: streamInv_def streamStep_def appended_def intervalArmed_def revealed_def)
    next
      case e: True
      with True wh ms Tick show ?thesis
        by (auto simp: streamInv_def streamStep_def appended_def intervalArmed_def revealed_def
            typewriterTick_def finishStreaming_def)
    qed
  qed
qed

lemma streamInv_run:
  "streamInv s whole \<Longrightarrow> streamInv (runStream s evs) (whole @ concat (map appended evs))"
proof (induction evs arbitrary: s whole)
  case Nil
  then show ?case by (simp add: runStream_def)
next
  case (Cons ev evs)
  from Cons.IH [OF streamInv_step [OF Cons.prems, of ev]] show ?case
    by (simp add: runStream_def)
qed

lemma remote_start:
  assumes "handleSendMessage fs s = (Remote t, s0)"
  shows "streamInv s0 []" and "intervalArmed s0" and "isNetworkStreaming s0"
    and "streamingBuffer s0 = []" and "t = inputValue s"
  using assms
  by (auto simp: handleSendMessage_def Let_def streamInv_def intervalArmed_def revealed_def
      aiPlaceholder_def split: if_splits option.splits)

lemma revealed_step_prefix:
  assumes "streamInv s whole"
  shows "prefix (revealed s) (revealed (streamStep s ev))"
proof (cases "ev = Tick \<and> intervalArmed s \<and> streamingBuffer s \<noteq> []")
  case True
  with assms have ms: "messages s \<noteq> []" "isStreaming (last (messages s))"
    by (auto simp: streamInv_def)
  from True tick_reveal [OF _ ms] show ?thesis
    by (simp add: streamStep_def revealed_def)
next
  case False
  then have "revealed (streamStep s ev) = revealed s"
    by (cases ev)
      (auto simp: streamStep_def tryBody_def catchBlock_def finallyBlock_def revealed_def
        typewriterTick_def finishStreaming_def split: stream_item.splits)
  then show ?thesis by simp
qed

lemma revealed_run_prefix:
  "streamInv s whole \<Longrightarrow> prefix (revealed s) (revealed (runStream s evs))"
proof (induction evs arbitrary: s whole)
  case Nil
  then show ?case by (simp add: runStream_Nil)
next
  case (Cons ev evs)
  from Cons.IH [OF streamInv_step [OF Cons.prems, of ev]] revealed_step_prefix [OF Cons.prems, of ev]
  show ?case by (auto simp: runStream_Cons intro: prefix_order.trans)
qed

lemma tick_step_nonempty:
  assumes "intervalArmed s" and "streamingBuffer s \<noteq> []"
  shows "intervalArmed (streamStep s Tick)"
    and "streamingBuffer (streamStep s Tick) =
           drop (charsToTake (length (streamingBuffer s))) (streamingBuffer s)"
    and "isNetworkStreaming (streamStep s Tick) = isNetworkStreaming s"
  using assms by (simp_all add: streamStep_def intervalArmed_def tick_flags tick_buffer)

lemma tick_step_empty:
  assumes "streamingBuffer s = []"
  shows "streamingBuffer (streamStep s Tick) = []"
  using assms by (simp add: streamStep_def tick_buffer)

lemma ticks_keep_empty:
  "streamingBuffer s = [] \<Longrightarrow> streamingBuffer (runStream s (replicate k Tick)) = []"
proof (induction k arbitrary: s)
  case 0
  then show ?case by (simp add: runStream_Nil)
next
  case (Suc k)
  from Suc.IH [OF tick_step_empty [OF Suc.prems]] show ?case
    by (simp add: runStream_Cons)
qed

lemma disarmed_ticks:
  "\<not> intervalArmed s \<Longrightarrow> runStream s (replicate k Tick) = s"
  by (induction k) (simp_all add: runStream_Nil runStream_Cons streamStep_def)

subsection \<open>Draining the backlog\<close>

lemma drainTicks_0: "drainTicks 0 = 0"
  by (subst drainTicks.simps) simp

lemma drainTicks_pos: "0 < n \<Longrightarrow> drainTicks n = Suc (drainTicks (n - charsToTake n))"
  by (subst drainTicks.simps) simp

lemma drainTicks_eq_0: "drainTicks n = 0 \<longleftrightarrow> n = 0"
  by (cases "n = 0") (simp_all add: drainTicks_0 drainTicks_pos)

lemma drained_iff:
  "intervalArmed s \<Longrightarrow>
     streamingBuffer (runStream s (replicate k Tick)) = [] \<longleftrightarrow>
     drainTicks (length (streamingBuffer s)) \<le> k"
proof (induction k arbitrary: s)
  case 0
  then show ?case by (simp add: runStream_Nil drainTicks_eq_0)
next
  case (Suc k)
  show ?case
  proof (cases "streamingBuffer s = []")
    case True
    with ticks_keep_empty [OF True, of "Suc k"] show ?thesis by (simp add: drainTicks_0)
  next
    case False
    from tick_step_nonempty [OF Suc.prems False] Suc.IH [of "streamStep s Tick"] False
    show ?thesis
      by (simp add: runStream_Cons drainTicks_pos)
  qed
qed

lemma drain_run:
  "intervalArmed s \<Longrightarrow>
     intervalArmed (runStream s (replicate (drainTicks (length (streamingBuffer s))) Tick)) \<and>
     isNetworkStreaming (runStream s (replicate (drainTicks (length (streamingBuffer s))) Tick)) =
       isNetworkStreaming s"
proof (induction "length (streamingBuffer s)" arbitrary: s rule: less_induct)
  case less
  show ?case
  proof (cases "streamingBuffer s = []")
    case True
    with less.prems show ?thesis by (simp add: drainTicks_0 runStream_Nil)
  next
    case False
    note st = tick_step_nonempty [OF less.prems False]
    have "length (streamingBuffer (streamStep s Tick)) < length (streamingBuffer s)"
      using False st(2) charsToTake_pos [of "length (streamingBuffer s)"] by simp
    from less.hyps [OF this st(1)] st False show ?thesis
      by (simp add: drainTicks_pos runStream_Cons)
  qed
qed

lemma reaches_terminal:
  assumes "intervalArmed s" and "\<not> isNetworkStreaming s"
  defines "k \<equiv> drainTicks (length (streamingBuffer s))"
  shows "fst (typewriterTick (runStream s (replicate k Tick))) = Terminal"
    and "\<not> isProcessing (runStream s (replicate (Suc k) Tick))"
    and "streamingBuffer (runStream s (replicate (Suc k) Tick)) = []"
proof -
  let ?s' = "runStream s (replicate k Tick)"
  have e: "streamingBuffer ?s' = []"
    using drained_iff [OF assms(1), of k] by (simp add: k_def)
  have a: "intervalArmed ?s'" and n: "\<not> isNetworkStreaming ?s'"
    using drain_run [OF assms(1)] assms(2) by (simp_all add: k_def)
  from terminal_tick [OF n e] show "fst (typewriterTick ?s') = Terminal" by simp
  have "replicate (Suc k) Tick = replicate k Tick @ [Tick]"
    by (simp add: replicate_append_same)
  then have r: "runStream s (replicate (Suc k) Tick) = streamStep ?s' Tick"
    by (simp only: runStream_snoc)
  from a terminal_tick [OF n e] show "\<not> isProcessing (runStream s (replicate (Suc k) Tick))"
    unfolding r by (simp add: streamStep_def)
  from a terminal_tick [OF n e] e show "streamingBuffer (runStream s (replicate (Suc k) Tick)) = []"
    unfolding r by (simp add: streamStep_def)
qed

lemma hello_route: "handleSendMessage (execute sampleVfs) helloState = (Remote ''hello'', helloStart)"
proof -
  have "fst (handleSendMessage (execute sampleVfs) helloState) = Remote ''hello''"
    by code_simp
  then show ?thesis
    by (simp add: helloStart_def prod_eq_iff)
qed

subsection \<open>Replies that stream undisturbed\<close>

text \<open>
  Start from the state the remote-chat branch of \<open>handleSendMessage\<close> sets up and let
  only events of the stream itself happen (chunks arriving, the stream failing or ending,
  interval ticks). Then the revealed text followed by the pending buffer is the
  concatenation of everything appended, in order. Whenever the interval is armed and the
  buffer is not empty, the tick takes a chunk of exactly 3 characters if the backlog
  exceeds 150, 2 if it exceeds 50 and 1 otherwise, from the front of the buffer, and
  appends it to the revealed text. With no further input the buffer is empty after
  \<open>k\<close> ticks exactly when \<open>k\<close> is at least \<open>drainTicks\<close> of the backlog length.
\<close>

lemma stream_only_run_conserves:
  fixes evs :: "stream_event list"
  assumes "handleSendMessage fs s = (Remote t, s0)"
  defines "s1 \<equiv> runStream s0 evs"
  shows "revealed s1 @ streamingBuffer s1 = concat (map appended evs) \<and>
         (intervalArmed s1 \<and> streamingBuffer s1 \<noteq> [] \<longrightarrow>
            (\<exists>chunk.
               length chunk =
                 (if length (streamingBuffer s1) > 150 then 3
                  else if length (streamingBuffer s1) > 50 then 2 else 1) \<and>
               typewriterTick s1 = (Revealed chunk, streamStep s1 Tick) \<and>
               streamingBuffer s1 = chunk @ streamingBuffer (streamStep s1 Tick) \<and>
               revealed (streamStep s1 Tick) = revealed s1 @ chunk)) \<and>
         (intervalArmed s1 \<longrightarrow>
            (\<forall>k. streamingBuffer (runStream s1 (replicate k Tick)) = [] \<longleftrightarrow>
                 drainTicks (length (streamingBuffer s1)) \<le> k))"
proof -
  from streamInv_run [OF remote_start(1) [OF assms(1)], of evs]
  have inv: "streamInv s1 (concat (map appended evs))" by (simp add: s1_def)
  then have conserve: "revealed s1 @ streamingBuffer s1 = concat (map appended evs)"
    by (simp add: streamInv_def)
  have batch: "\<exists>chunk.
      length chunk =
        (if length (streamingBuffer s1) > 150 then 3
         else if length (streamingBuffer s1) > 50 then 2 else 1) \<and>
      typewriterTick s1 = (Revealed chunk, streamStep s1 Tick) \<and>
      streamingBuffer s1 = chunk @ streamingBuffer (streamStep s1 Tick) \<and>
      revealed (streamStep s1 Tick) = revealed s1 @ chunk"
    if armed: "intervalArmed s1" and ne: "streamingBuffer s1 \<noteq> []"
  proof -
    let ?n = "charsToTake (length (streamingBuffer s1))"
    from inv armed have ms: "messages s1 \<noteq> []" "isStreaming (last (messages s1))"
      by (auto simp: streamInv_def)
    note tr = tick_reveal [OF ne ms]
    have len: "length (take ?n (streamingBuffer s1)) =
        (if length (streamingBuffer s1) > 150 then 3
         else if length (streamingBuffer s1) > 50 then 2 else 1)"
      using ne by (cases "streamingBuffer s1") (auto simp: charsToTake_def min_def)
    have step: "streamStep s1 Tick = snd (typewriterTick s1)"
      using armed by (simp add: streamStep_def)
    have "typewriterTick s1 = (Revealed (take ?n (streamingBuffer s1)), streamStep s1 Tick)"
      unfolding step by (simp add: tr)
    moreover have "streamingBuffer s1 =
        take ?n (streamingBuffer s1) @ streamingBuffer (streamStep s1 Tick)"
      unfolding step by (simp add: tr)
    moreover have "revealed (streamStep s1 Tick) = revealed s1 @ take ?n (streamingBuffer s1)"
      unfolding step using ms by (simp add: tr revealed_def)
    ultimately show ?thesis using len by blast
  qed
  show ?thesis
  proof (intro conjI impI allI)
    show "revealed s1 @ streamingBuffer s1 = concat (map appended evs)" by (rule conserve)
  next
    assume "intervalArmed s1 \<and> streamingBuffer s1 \<noteq> []"
    then have "intervalArmed s1" and "streamingBuffer s1 \<noteq> []" by simp_all
    then show "\<exists>chunk.
      length chunk =
        (if length (streamingBuffer s1) > 150 then 3
         else if length (streamingBuffer s1) > 50 then 2 else 1) \<and>
      typewriterTick s1 = (Revealed chunk, streamStep s1 Tick) \<and>
      streamingBuffer s1 = chunk @ streamingBuffer (streamStep s1 Tick) \<and>
      revealed (streamStep s1 Tick) = revealed s1 @ chunk" by (rule batch)
  next
    fix k
    assume "intervalArmed s1"
    then show "streamingBuffer (runStream s1 (replicate k Tick)) = [] \<longleftrightarrow>
        drainTicks (length (streamingBuffer s1)) \<le> k" by (rule drained_iff)
  qed
qed

text \<open>
  A reply that arrives as one burst of 200 characters: the first tick takes 3, and the
  buffer is empty after 116 ticks and not after 115.
\<close>

lemma stream_only_run_burst:
  "handleSendMessage (execute sampleVfs) helloState = (Remote ''hello'', helloStart) \<and>
   revealed (runStream helloStart burst) @ streamingBuffer (runStream helloStart burst) =
     replicate 200 CHR ''a'' \<and>
   intervalArmed (runStream helloStart burst) \<and>
   length (streamingBuffer (runStream helloStart burst)) = 200 \<and>
   (\<exists>chunk. length chunk = 3 \<and>
      typewriterTick (runStream helloStart burst) =
        (Revealed chunk, streamStep (runStream helloStart burst) Tick) \<and>
      streamingBuffer (runStream helloStart burst) =
        chunk @ streamingBuffer (streamStep (runStream helloStart burst) Tick) \<and>
      revealed (streamStep (runStream helloStart burst) Tick) =
        revealed (runStream helloStart burst) @ chunk) \<and>
   streamingBuffer (runStream (runStream helloStart burst) (replicate 116 Tick)) = [] \<and>
   streamingBuffer (runStream (runStream helloStart burst) (replicate 115 Tick)) \<noteq> []"
proof -
  note c1 = stream_only_run_conserves [OF hello_route, of burst]
  have a: "intervalArmed (runStream helloStart burst)"
    unfolding helloStart_def by code_simp
  have l: "length (streamingBuffer (runStream helloStart burst)) = 200"
    unfolding helloStart_def by code_simp
  have d: "drainTicks 200 = 116" by code_simp
  have w: "concat (map appended burst) = replicate 200 CHR ''a''"
    by (simp add: burst_def appended_def)
  from l have ne: "streamingBuffer (runStream helloStart burst) \<noteq> []" by auto
  from c1 have drain: "streamingBuffer (runStream (runStream helloStart burst) (replicate k Tick)) = [] \<longleftrightarrow>
      drainTicks (length (streamingBuffer (runStream helloStart burst))) \<le> k" for k
    using a by blast
  from c1 a ne have batch: "\<exists>chunk. length chunk =
        (if length (streamingBuffer (runStream helloStart burst)) > 150 then 3
         else if length (streamingBuffer (runStream helloStart burst)) > 50 then 2 else 1) \<and>
      typewriterTick (runStream helloStart burst) =
        (Revealed chunk, streamStep (runStream helloStart burst) Tick) \<and>
      streamingBuffer (runStream helloStart burst) =
        chunk @ streamingBuffer (streamStep (runStream helloStart burst) Tick) \<and>
      revealed (streamStep (runStream helloStart burst) Tick) =
        revealed (runStream helloStart burst) @ chunk"
    by blast
  from c1 have cons: "revealed (runStream helloStart burst) @ streamingBuffer (runStream helloStart burst) =
     replicate 200 CHR ''a''" unfolding w by blast
  have d1: "streamingBuffer (runStream (runStream helloStart burst) (replicate 116 Tick)) = []"
    unfolding drain l d by simp
  have d2: "streamingBuffer (runStream (runStream helloStart burst) (replicate 115 Tick)) \<noteq> []"
    unfolding drain l d by simp
  from batch have batch3: "\<exists>chunk. length chunk = 3 \<and>
      typewriterTick (runStream helloStart burst) =
        (Revealed chunk, streamStep (runStream helloStart burst) Tick) \<and>
      streamingBuffer (runStream helloStart burst) =
        chunk @ streamingBuffer (streamStep (runStream helloStart burst) Tick) \<and>
      revealed (streamStep (runStream helloStart burst) Tick) =
        revealed (runStream helloStart burst) @ chunk"
    unfolding l by simp
  from hello_route cons a l batch3 d1 d2 show ?thesis by (intro conjI)
qed

subsection \<open>Replies with a message behind the placeholder\<close>

lemma toggled_value:
  "toggledMidStream =
     \<lparr>chatMode = assistant, currentPath = ''/home/operator'', history = [''hello''],
      historyIndex = - 1,
      messages = [userMessage ''hello'', aiPlaceholder,
        systemMessage ''SWITCHING SYSTEM TO: GEMINI_LINK...\<newline>ESTABLISHING NEURAL LINK...''],
      inputValue = [], isProcessing = True, shouldAutoScroll = True,
      streamingBuffer = ''abc'', isNetworkStreaming = True, isTypewriterActive = True,
      timers = []\<rparr>"
  unfolding toggledMidStream_def helloStart_def by code_simp

lemma cdThenHello_value:
  "cdThenHello =
     \<lparr>chatMode = terminal, currentPath = ''/home/operator/docs'',
      history = [''cd docs'', ''hello''], historyIndex = - 1,
      messages = [userMessage ''cd docs'', userMessage ''hello'', aiPlaceholder],
      inputValue = [], isProcessing = True, shouldAutoScroll = True,
      streamingBuffer = [], isNetworkStreaming = True, isTypewriterActive = True,
      timers = [(1000, AutoLs ''/home/operator/docs'')]\<rparr>"
  by code_simp

lemma autoLs_value:
  "autoLsMidStream =
     \<lparr>chatMode = terminal, currentPath = ''/home/operator/docs'',
      history = [''cd docs'', ''hello''], historyIndex = - 1,
      messages = [userMessage ''cd docs'', userMessage ''hello'', aiPlaceholder,
        systemMessage ''ls''],
      inputValue = [], isProcessing = True, shouldAutoScroll = True,
      streamingBuffer = ''abc'', isNetworkStreaming = True, isTypewriterActive = True,
      timers = []\<rparr>"
  unfolding autoLsMidStream_def cdThenHello_value by code_simp

subsection \<open>The router under the filesystem's contract\<close>

text \<open>
  Where the filesystem answers only its own verbs (\<open>recognisesOnlyFsVerbs\<close>), no
  command line is both a filesystem command and the \<open>sudo rm -rf\<close> sequence, and the
  branch the handler takes is the class \<open>classify_spec\<close> gives.
\<close>

lemma router_agrees_with_spec_under_contract:
  assumes "recognisesOnlyFsVerbs fs" and "trim (inputValue s) \<noteq> []" and "\<not> isProcessing s"
  shows "routeClass (fst (handleSendMessage fs s)) =
           Some (classify_spec fs (trim (inputValue s)) (currentPath s)) \<and>
         (classify_spec fs (trim (inputValue s)) (currentPath s) = RemoteChat \<longrightarrow>
            fst (handleSendMessage fs s) = Remote (inputValue s) \<and>
            isNetworkStreaming (snd (handleSendMessage fs s)) \<and>
            intervalArmed (snd (handleSendMessage fs s)) \<and>
            streamingBuffer (snd (handleSendMessage fs s)) = [])"
proof (cases "toLowerCase (trim (inputValue s)) = ''sudo rm -rf'' \<or>
              startsWith (toLowerCase (trim (inputValue s))) ''sudo rm -rf /''")
  case True
  from sudo_not_fs [OF assms(1) True] have "fs (trim (inputValue s)) (currentPath s) = None" .
  with True assms(2,3) show ?thesis
    by (auto simp: handleSendMessage_def classify_spec_def isEasterEgg_def Let_def)
next
  case False
  with assms(2,3) show ?thesis
    by (auto simp: handleSendMessage_def classify_spec_def isEasterEgg_def Let_def
        intervalArmed_def split: option.splits)
qed

section \<open>The claims\<close>

subsection \<open>C1: a tick moves a backlog-sized batch and loses nothing\<close>

text \<open>
  Claim C1. Every tick with a non-empty pending buffer moves exactly N characters from
  the front of pending to revealed (N by the backlog thresholds), so that revealed
  followed by pending is everything appended, at every tick. The interval callback cuts
  its chunk off the buffer first and appends it to the last message only if that message
  is the streaming one. Once another message stands behind the placeholder the chunk is
  cut off and shown nowhere. Below, the reply's first chunk \<open>abc\<close> has arrived and
  then the mode button was clicked (\<open>toggledMidStream\<close>), or the automatic \<open>ls\<close> of
  an earlier \<open>cd docs\<close> has fired (\<open>autoLsMidStream\<close>): the tick reports \<open>a\<close>
  as revealed and leaves \<open>bc\<close> pending, while no message text changes; after the
  stream has ended and drained, the reply is still empty.
\<close>

theorem tick_drops_chunk_behind_other_message:
  "handleSendMessage (execute sampleVfs) helloState = (Remote ''hello'', helloStart) \<and>
   toggledMidStream =
     runApp (execute sampleVfs) helloStart [Stream (Source (Chunk (Some ''abc''))), ToggleMode] \<and>
   intervalArmed toggledMidStream \<and>
   streamingBuffer toggledMidStream = ''abc'' \<and>
   map msgText (messages toggledMidStream) =
     [''hello'', [], ''SWITCHING SYSTEM TO: GEMINI_LINK...\<newline>ESTABLISHING NEURAL LINK...''] \<and>
   typewriterTick toggledMidStream =
     (Revealed ''a'', toggledMidStream\<lparr>streamingBuffer := ''bc''\<rparr>) \<and>
   map msgText (messages (runStream toggledMidStream [Tick, Tick, Tick, SourceDone, Tick])) =
     [''hello'', [], ''SWITCHING SYSTEM TO: GEMINI_LINK...\<newline>ESTABLISHING NEURAL LINK...''] \<and>
   streamingBuffer (runStream toggledMidStream [Tick, Tick, Tick, SourceDone, Tick]) = [] \<and>
   \<not> isProcessing (runStream toggledMidStream [Tick, Tick, Tick, SourceDone, Tick]) \<and>
   timers cdThenHello = [(1000, AutoLs ''/home/operator/docs'')] \<and>
   intervalArmed autoLsMidStream \<and>
   streamingBuffer autoLsMidStream = ''abc'' \<and>
   map msgText (messages autoLsMidStream) = [''cd docs'', ''hello'', [], ''ls''] \<and>
   typewriterTick autoLsMidStream =
     (Revealed ''a'', autoLsMidStream\<lparr>streamingBuffer := ''bc''\<rparr>)"
proof -
  have t1: "intervalArmed toggledMidStream"
    unfolding toggled_value by code_simp
  have t2: "streamingBuffer toggledMidStream = ''abc''"
    unfolding toggled_value by simp
  have t3: "map msgText (messages toggledMidStream) =
     [''hello'', [], ''SWITCHING SYSTEM TO: GEMINI_LINK...\<newline>ESTABLISHING NEURAL LINK...'']"
    unfolding toggled_value by code_simp
  have t4: "typewriterTick toggledMidStream =
     (Revealed ''a'', toggledMidStream\<lparr>streamingBuffer := ''bc''\<rparr>)"
    unfolding toggled_value by code_simp
  have t5: "map msgText (messages (runStream toggledMidStream [Tick, Tick, Tick, SourceDone, Tick])) =
     [''hello'', [], ''SWITCHING SYSTEM TO: GEMINI_LINK...\<newline>ESTABLISHING NEURAL LINK...'']"
    unfolding toggled_value by code_simp
  have t6: "streamingBuffer (runStream toggledMidStream [Tick, Tick, Tick, SourceDone, Tick]) = []"
    unfolding toggled_value by code_simp
  have t7: "\<not> isProcessing (runStream toggledMidStream [Tick, Tick, Tick, SourceDone, Tick])"
    unfolding toggled_value by code_simp
  have c1: "timers cdThenHello = [(1000, AutoLs ''/home/operator/docs'')]"
    unfolding cdThenHello_value by simp
  have a1: "intervalArmed autoLsMidStream"
    unfolding autoLs_value by code_simp
  have a2: "streamingBuffer autoLsMidStream = ''abc''"
    unfolding autoLs_value by simp
  have a3: "map msgText (messages autoLsMidStream) = [''cd docs'', ''hello'', [], ''ls'']"
    unfolding autoLs_value by code_simp
  have a4: "typewriterTick autoLsMidStream =
     (Revealed ''a'', autoLsMidStream\<lparr>streamingBuffer := ''bc''\<rparr>)"
    unfolding autoLs_value by code_simp
  from hello_route toggledMidStream_def t1 t2 t3 t4 t5 t6 t7 c1 a1 a2 a3 a4
  show ?thesis by (intro conjI)
qed

subsection \<open>C2: priority order of the command router\<close>




subsection \<open>C3: a failing remote call ends in the terminal state\<close>

text \<open>
  Claim C3. When the remote stream throws \<open>e\<close> while the interval is armed, the
  \<open>try\<close> body raises it, and \<open>catch\<close> and \<open>finally\<close> leave a state: the
  bracketed error line is appended to the pending buffer after what was already there,
  the messages (the partial reply) are untouched, and the source is closed. From there
  the ticks drain the buffer; the tick after the last character is the terminal one and
  switches \<open>isProcessing\<close> off.
\<close>

theorem transport_failure_reaches_terminal:
  fixes s :: app_state and e :: thrown
  assumes "intervalArmed s"
  defines "s1 \<equiv> streamStep s (Source (Throws e))"
  shows "tryBody s (Throws e) = Inl e \<and>
         streamingBuffer s1 =
           streamingBuffer s @ ''\<newline>[ERROR: CONNECTION FAILED - '' @
             (case e of ErrorObject m \<Rightarrow> m | NonError \<Rightarrow> ''UNKNOWN'') @ '']'' \<and>
         messages s1 = messages s \<and>
         \<not> isNetworkStreaming s1 \<and>
         fst (typewriterTick
               (runStream s1 (replicate (drainTicks (length (streamingBuffer s1))) Tick))) =
           Terminal \<and>
         \<not> isProcessing
             (runStream s1 (replicate (Suc (drainTicks (length (streamingBuffer s1)))) Tick)) \<and>
         streamingBuffer
             (runStream s1 (replicate (Suc (drainTicks (length (streamingBuffer s1)))) Tick)) = []"
proof -
  have a: "intervalArmed s1" and n: "\<not> isNetworkStreaming s1"
    using assms(1)
    by (simp_all add: s1_def streamStep_def tryBody_def catchBlock_def finallyBlock_def
        intervalArmed_def)
  have t: "tryBody s (Throws e) = Inl e" by (simp add: tryBody_def)
  have b: "streamingBuffer s1 =
      streamingBuffer s @ ''\<newline>[ERROR: CONNECTION FAILED - '' @
        (case e of ErrorObject m \<Rightarrow> m | NonError \<Rightarrow> ''UNKNOWN'') @ '']''"
    by (simp add: s1_def streamStep_def tryBody_def catchBlock_def finallyBlock_def
        errorFragment_def)
  have m: "messages s1 = messages s"
    by (simp add: s1_def streamStep_def tryBody_def catchBlock_def finallyBlock_def)
  from t b m n reaches_terminal [OF a n] show ?thesis by (intro conjI)
qed

text \<open>
  The theorem on a reply that fails with the message \<open>quota\<close> after \<open>H\<close> has been
  revealed and \<open>el\<close> is pending: 37 characters are pending then, the 38th tick is
  terminal.
\<close>

theorem transport_failure_reaches_terminal_witness:
  "intervalArmed (runStream helloStart [Source (Chunk (Some ''Hel'')), Tick]) \<and>
   revealed (runStream helloStart [Source (Chunk (Some ''Hel'')), Tick]) = ''H'' \<and>
   tryBody (runStream helloStart [Source (Chunk (Some ''Hel'')), Tick])
     (Throws (ErrorObject ''quota'')) = Inl (ErrorObject ''quota'') \<and>
   streamingBuffer (streamStep (runStream helloStart [Source (Chunk (Some ''Hel'')), Tick])
       (Source (Throws (ErrorObject ''quota'')))) =
     ''el\<newline>[ERROR: CONNECTION FAILED - quota]'' \<and>
   \<not> isNetworkStreaming (streamStep (runStream helloStart [Source (Chunk (Some ''Hel'')), Tick])
       (Source (Throws (ErrorObject ''quota'')))) \<and>
   fst (typewriterTick (runStream
       (streamStep (runStream helloStart [Source (Chunk (Some ''Hel'')), Tick])
          (Source (Throws (ErrorObject ''quota''))))
       (replicate 37 Tick))) = Terminal \<and>
   \<not> isProcessing (runStream
       (streamStep (runStream helloStart [Source (Chunk (Some ''Hel'')), Tick])
          (Source (Throws (ErrorObject ''quota''))))
       (replicate 38 Tick))"
proof -
  let ?s = "runStream helloStart [Source (Chunk (Some ''Hel'')), Tick]"
  let ?s1 = "streamStep ?s (Source (Throws (ErrorObject ''quota'')))"
  have a: "intervalArmed ?s" unfolding helloStart_def by code_simp
  have r: "revealed ?s = ''H''" unfolding helloStart_def by code_simp
  have b: "streamingBuffer ?s = ''el''" unfolding helloStart_def by code_simp
  note c3 = transport_failure_reaches_terminal [OF a, of "ErrorObject ''quota''"]
  from c3 b have b1: "streamingBuffer ?s1 = ''el\<newline>[ERROR: CONNECTION FAILED - quota]''"
    by simp
  have d: "drainTicks (length ''el\<newline>[ERROR: CONNECTION FAILED - quota]'') = 37"
    by code_simp
  from c3 have t: "fst (typewriterTick (runStream ?s1
      (replicate (drainTicks (length (streamingBuffer ?s1))) Tick))) = Terminal"
    and p: "\<not> isProcessing (runStream ?s1
      (replicate (Suc (drainTicks (length (streamingBuffer ?s1)))) Tick))"
    and n: "\<not> isNetworkStreaming ?s1"
    and y: "tryBody ?s (Throws (ErrorObject ''quota'')) = Inl (ErrorObject ''quota'')"
    by blast+
  from t have t': "fst (typewriterTick (runStream ?s1 (replicate 37 Tick))) = Terminal"
    unfolding b1 d .
  from p have p': "\<not> isProcessing (runStream ?s1 (replicate 38 Tick))"
    unfolding b1 d by simp
  from a r y b1 n t' p' show ?thesis by (intro conjI)
qed

subsection \<open>C4: the terminal tick is idempotent\<close>

text \<open>
  Claim C4. With the source closed and the pending buffer empty, the interval callback
  reports \<open>Terminal\<close>. It leaves buffer, source flag and revealed text as they are;
  running it again, any number of times, reports \<open>Terminal\<close> again and returns the
  same state. After it the interval is no longer armed, so further ticks do nothing.
\<close>

theorem terminal_tick_idempotent:
  fixes s :: app_state
  assumes "\<not> isNetworkStreaming s" and "streamingBuffer s = []"
  defines "s1 \<equiv> snd (typewriterTick s)"
  shows "fst (typewriterTick s) = Terminal \<and>
         typewriterTick s1 = (Terminal, s1) \<and>
         (\<forall>k. ((\<lambda>x. snd (typewriterTick x)) ^^ Suc k) s = s1) \<and>
         streamingBuffer s1 = streamingBuffer s \<and>
         isNetworkStreaming s1 = isNetworkStreaming s \<and>
         revealed s1 = revealed s \<and>
         \<not> intervalArmed s1 \<and>
         (\<forall>k. runStream s1 (replicate k Tick) = s1)"
proof -
  note tt = terminal_tick [OF assms(1,2)]
  have s1: "s1 = s\<lparr>isProcessing := False, messages := finishStreaming (messages s)\<rparr>"
    by (simp add: s1_def tt)
  have n1: "\<not> isNetworkStreaming s1" and e1: "streamingBuffer s1 = []"
    using assms(1,2) by (simp_all add: s1)
  have again: "typewriterTick s1 = (Terminal, s1)"
    using terminal_tick [OF n1 e1] by (simp add: s1 finishStreaming_idem)
  have rep: "((\<lambda>x. snd (typewriterTick x)) ^^ Suc k) s = s1" for k
    by (induction k) (simp_all add: s1_def [symmetric] again)
  have d: "\<not> intervalArmed s1" by (simp add: s1 intervalArmed_def)
  have f: "fst (typewriterTick s) = Terminal" by (simp add: tt)
  have b: "streamingBuffer s1 = streamingBuffer s" by (simp add: s1)
  have n: "isNetworkStreaming s1 = isNetworkStreaming s" by (simp add: s1)
  have r: "revealed s1 = revealed s" by (simp add: s1 revealed_finish)
  from f again rep b n r d disarmed_ticks [OF d] show ?thesis by blast
qed

text \<open>
  The theorem on the reply \<open>Hi\<close>, fully revealed, with the source closed.
\<close>

theorem terminal_tick_idempotent_witness:
  "\<not> isNetworkStreaming (runStream helloStart [Source (Chunk (Some ''Hi'')), SourceDone, Tick, Tick]) \<and>
   streamingBuffer (runStream helloStart [Source (Chunk (Some ''Hi'')), SourceDone, Tick, Tick]) = [] \<and>
   isProcessing (runStream helloStart [Source (Chunk (Some ''Hi'')), SourceDone, Tick, Tick]) \<and>
   fst (typewriterTick
     (runStream helloStart [Source (Chunk (Some ''Hi'')), SourceDone, Tick, Tick])) = Terminal \<and>
   typewriterTick (snd (typewriterTick
     (runStream helloStart [Source (Chunk (Some ''Hi'')), SourceDone, Tick, Tick]))) =
     (Terminal, snd (typewriterTick
       (runStream helloStart [Source (Chunk (Some ''Hi'')), SourceDone, Tick, Tick]))) \<and>
   revealed (snd (typewriterTick
     (runStream helloStart [Source (Chunk (Some ''Hi'')), SourceDone, Tick, Tick]))) = ''Hi'' \<and>
   \<not> intervalArmed (snd (typewriterTick
     (runStream helloStart [Source (Chunk (Some ''Hi'')), SourceDone, Tick, Tick])))"
proof -
  let ?s = "runStream helloStart [Source (Chunk (Some ''Hi'')), SourceDone, Tick, Tick]"
  have n: "\<not> isNetworkStreaming ?s" unfolding helloStart_def by code_simp
  have e: "streamingBuffer ?s = []" unfolding helloStart_def by code_simp
  have p: "isProcessing ?s" unfolding helloStart_def by code_simp
  have r: "revealed ?s = ''Hi''" unfolding helloStart_def by code_simp
  note c4 = terminal_tick_idempotent [OF n e]
  from c4 r have r1: "revealed (snd (typewriterTick ?s)) = ''Hi''" by simp
  from c4 have f: "fst (typewriterTick ?s) = Terminal"
    and i: "typewriterTick (snd (typewriterTick ?s)) = (Terminal, snd (typewriterTick ?s))"
    and d: "\<not> intervalArmed (snd (typewriterTick ?s))"
    by blast+
  from n e p f i r1 d show ?thesis by (intro conjI)
qed

subsection \<open>C5: the buffer is first-in first-out\<close>

text \<open>
  Claim C5. In any run of stream events from the start of a remote reply, the revealed
  text is a prefix of the concatenation of the appended chunks in arrival order, it only
  grows as the run continues, and an arriving chunk goes to the end of the pending buffer.
\<close>

theorem revealed_is_fifo_prefix:
  assumes "handleSendMessage fs s = (Remote t, s0)"
  shows "prefix (revealed (runStream s0 evs)) (concat (map appended evs)) \<and>
         prefix (revealed (runStream s0 evs)) (revealed (runStream s0 (evs @ evs'))) \<and>
         streamingBuffer (streamStep (runStream s0 evs) (Source (Chunk (Some chunkText)))) =
           streamingBuffer (runStream s0 evs) @ chunkText"
proof -
  from streamInv_run [OF remote_start(1) [OF assms(1)], of evs]
  have inv: "streamInv (runStream s0 evs) (concat (map appended evs))" by simp
  then have "revealed (runStream s0 evs) @ streamingBuffer (runStream s0 evs) =
      concat (map appended evs)"
    by (simp add: streamInv_def)
  then have "prefix (revealed (runStream s0 evs)) (concat (map appended evs))"
    by (metis prefixI)
  moreover from revealed_run_prefix [OF inv, of evs']
  have "prefix (revealed (runStream s0 evs)) (revealed (runStream s0 (evs @ evs')))"
    by (simp add: runStream_append)
  moreover have "streamingBuffer (streamStep (runStream s0 evs) (Source (Chunk (Some chunkText)))) =
      streamingBuffer (runStream s0 evs) @ chunkText"
    by (simp add: streamStep_def tryBody_def)
  ultimately show ?thesis by simp
qed

text \<open>
  The theorem on a reply that arrives as \<open>Hel\<close>, an empty chunk and \<open>lo\<close>, with
  three ticks in between.
\<close>

theorem revealed_is_fifo_prefix_witness:
  "handleSendMessage (execute sampleVfs) helloState = (Remote ''hello'', helloStart) \<and>
   revealed (runStream helloStart halting) = ''Hel'' \<and>
   concat (map appended halting) = ''Hello'' \<and>
   prefix (revealed (runStream helloStart halting)) (concat (map appended halting)) \<and>
   prefix (revealed (runStream helloStart halting))
     (revealed (runStream helloStart (halting @ [Tick]))) \<and>
   streamingBuffer (streamStep (runStream helloStart halting) (Source (Chunk (Some ''!'')))) =
     streamingBuffer (runStream helloStart halting) @ ''!''"
proof -
  have r: "revealed (runStream helloStart halting) = ''Hel''"
    unfolding helloStart_def by code_simp
  have w: "concat (map appended halting) = ''Hello''"
    by (simp add: halting_def appended_def)
  from revealed_is_fifo_prefix [OF hello_route, of halting "[Tick]" "''!''"] hello_route r w
  show ?thesis by (intro conjI) simp_all
qed

subsection \<open>C6: bounded history and cursor reset\<close>

text \<open>
  Claim C6. After a submission that passes the guard, the history is the old history with
  the raw input appended, cut from the front to its last 50 entries, so it never holds
  more than 50; and the recall cursor is \<open>-1\<close>.
\<close>

theorem history_bounded_cursor_reset:
  assumes "trim (inputValue s) \<noteq> []" and "\<not> isProcessing s"
  shows "length (history (snd (handleSendMessage fs s))) \<le> 50 \<and>
         history (snd (handleSendMessage fs s)) =
           drop (length (history s) + 1 - 50) (history s @ [inputValue s]) \<and>
         historyIndex (snd (handleSendMessage fs s)) = - 1"
proof -
  have h: "history (snd (handleSendMessage fs s)) = addToHistory (history s) (inputValue s)"
    and i: "historyIndex (snd (handleSendMessage fs s)) = - 1"
    using assms
    by (auto simp: handleSendMessage_def Let_def split: option.splits)
  have "addToHistory (history s) (inputValue s) =
          drop (length (history s) + 1 - 50) (history s @ [inputValue s])"
    by (simp add: addToHistory_def Let_def)
  with h i show ?thesis by simp
qed

text \<open>
  The theorem on a full history of 50 entries: the oldest one goes.
\<close>

theorem history_bounded_cursor_reset_witness:
  "trim (inputValue (sampleState\<lparr>inputValue := ''ls'', history := replicate 50 ''pwd''\<rparr>)) \<noteq> [] \<and>
   \<not> isProcessing (sampleState\<lparr>inputValue := ''ls'', history := replicate 50 ''pwd''\<rparr>) \<and>
   length (history (snd (handleSendMessage (execute sampleVfs)
      (sampleState\<lparr>inputValue := ''ls'', history := replicate 50 ''pwd''\<rparr>)))) \<le> 50 \<and>
   history (snd (handleSendMessage (execute sampleVfs)
      (sampleState\<lparr>inputValue := ''ls'', history := replicate 50 ''pwd''\<rparr>))) =
     replicate 49 ''pwd'' @ [''ls''] \<and>
   historyIndex (snd (handleSendMessage (execute sampleVfs)
      (sampleState\<lparr>inputValue := ''ls'', history := replicate 50 ''pwd''\<rparr>))) = - 1"
proof -
  let ?s = "sampleState\<lparr>inputValue := ''ls'', history := replicate 50 ''pwd''\<rparr>"
  have h1: "trim (inputValue ?s) \<noteq> []" by (simp add: trim_def isWhiteSpace_def)
  have h2: "\<not> isProcessing ?s" by (simp add: sampleState_def)
  from history_bounded_cursor_reset [OF h1 h2, of "execute sampleVfs"] h1 h2 show ?thesis by simp
qed

subsection \<open>C7: what the clear command resets\<close>

text \<open>
  Claim C7, as amended. A submitted \<open>clear\<close> (in any letter case, white space around it
  ignored) while nothing is being processed empties the message list and the input field
  and resets the recall cursor; the history is kept and the submitted line is appended to
  it, and the stream buffer and source flag stay as they are. While a message is being
  processed, as during streaming, the submission is ignored and the state is unchanged.
\<close>

theorem clear_resets_messages_only:
  assumes "toLowerCase (trim (inputValue s)) = ''clear''"
  shows "(\<not> isProcessing s \<longrightarrow>
            handleSendMessage fs s =
              (Reset, s\<lparr>history := addToHistory (history s) (inputValue s),
                        historyIndex := - 1, inputValue := [], messages := []\<rparr>) \<and>
            history (snd (handleSendMessage fs s)) \<noteq> [] \<and>
            last (history (snd (handleSendMessage fs s))) = inputValue s \<and>
            streamingBuffer (snd (handleSendMessage fs s)) = streamingBuffer s \<and>
            isNetworkStreaming (snd (handleSendMessage fs s)) = isNetworkStreaming s) \<and>
         (isProcessing s \<longrightarrow> handleSendMessage fs s = (Ignored, s))"
proof -
  from assms have ne: "trim (inputValue s) \<noteq> []"
    by (auto simp: toLowerCase_def)
  have h: "addToHistory (history s) (inputValue s) \<noteq> []"
    "last (addToHistory (history s) (inputValue s)) = inputValue s"
    by (simp_all add: addToHistory_def Let_def)
  from assms ne h show ?thesis
    by (simp add: handleSendMessage_def Let_def)
qed

text \<open>
  The amended claim on \<open>clear\<close> submitted in an idle state and in a streaming state.
\<close>

theorem clear_resets_messages_only_witness:
  "toLowerCase (trim (inputValue clearWhileIdle)) = ''clear'' \<and>
   \<not> isProcessing clearWhileIdle \<and>
   handleSendMessage (execute sampleVfs) clearWhileIdle =
     (Reset, clearWhileIdle\<lparr>history := [''ls'', '' CLEAR ''], historyIndex := - 1,
               inputValue := [], messages := []\<rparr>) \<and>
   toLowerCase (trim (inputValue clearWhileStreaming)) = ''clear'' \<and>
   isProcessing clearWhileStreaming \<and>
   handleSendMessage (execute sampleVfs) clearWhileStreaming = (Ignored, clearWhileStreaming)"
proof -
  have h1: "toLowerCase (trim (inputValue clearWhileIdle)) = ''clear''" by code_simp
  have p1: "\<not> isProcessing clearWhileIdle" by code_simp
  have a1: "addToHistory (history clearWhileIdle) (inputValue clearWhileIdle) =
      [''ls'', '' CLEAR '']" by code_simp
  have h2: "toLowerCase (trim (inputValue clearWhileStreaming)) = ''clear''"
    unfolding clearWhileStreaming_def helloStart_def by code_simp
  have p2: "isProcessing clearWhileStreaming"
    unfolding clearWhileStreaming_def helloStart_def by code_simp
  from clear_resets_messages_only [OF h1, of "execute sampleVfs"] p1 a1
  have r1: "handleSendMessage (execute sampleVfs) clearWhileIdle =
     (Reset, clearWhileIdle\<lparr>history := [''ls'', '' CLEAR ''], historyIndex := - 1,
               inputValue := [], messages := []\<rparr>)" by simp
  from clear_resets_messages_only [OF h2, of "execute sampleVfs"] p2
  have r2: "handleSendMessage (execute sampleVfs) clearWhileStreaming =
      (Ignored, clearWhileStreaming)" by simp
  from h1 p1 r1 h2 p2 r2 show ?thesis by (intro conjI)
qed

text \<open>
  Claim C7 as written does not hold. Submitted while a reply streams, \<open>clear\<close> leaves
  the state as it is: the history still holds its entry, the buffer still holds the
  pending characters, the interval stays armed and the next tick reveals one more
  character. Submitted in an idle state, \<open>clear\<close> is appended to the history.
\<close>

theorem clear_keeps_history_and_stream:
  "toLowerCase (trim (inputValue clearWhileStreaming)) = ''clear'' \<and>
   snd (handleSendMessage (execute sampleVfs) clearWhileStreaming) = clearWhileStreaming \<and>
   history (snd (handleSendMessage (execute sampleVfs) clearWhileStreaming)) = [''hello''] \<and>
   streamingBuffer (snd (handleSendMessage (execute sampleVfs) clearWhileStreaming)) = ''bcd'' \<and>
   intervalArmed (snd (handleSendMessage (execute sampleVfs) clearWhileStreaming)) \<and>
   revealed (snd (handleSendMessage (execute sampleVfs) clearWhileStreaming)) = ''a'' \<and>
   revealed (streamStep (snd (handleSendMessage (execute sampleVfs) clearWhileStreaming)) Tick) =
     ''ab'' \<and>
   history (snd (handleSendMessage (execute sampleVfs) clearWhileIdle)) = [''ls'', '' CLEAR '']"
  unfolding clearWhileStreaming_def helloStart_def by code_simp

subsection \<open>C8: Tab completes on a single match only\<close>

text \<open>
  Claim C8, as amended. The input is the space-separated \<open>parts\<close> joined again.
  When the last part is not empty, the completions of it at the current path are looked up: with
  exactly one match the last part is replaced by it, with none or several the state is
  unchanged. When the last part is empty no lookup is made and the state is unchanged.
\<close>

theorem tab_completes_single_match:
  fixes s :: app_state and complete :: "string \<Rightarrow> string \<Rightarrow> string list"
  defines "parts \<equiv> splitOn CHR '' '' (inputValue s)"
  defines "matches \<equiv> complete (last parts) (currentPath s)"
  shows "joinWith '' '' (butlast parts @ [last parts]) = inputValue s \<and>
         (last parts \<noteq> [] \<and> length matches = 1 \<longrightarrow>
            handleTab complete s =
              (Some matches, s\<lparr>inputValue := joinWith '' '' (butlast parts @ [hd matches])\<rparr>)) \<and>
         (last parts \<noteq> [] \<and> length matches \<noteq> 1 \<longrightarrow>
            handleTab complete s = (Some matches, s)) \<and>
         (last parts = [] \<longrightarrow> handleTab complete s = (None, s))"
proof -
  have "butlast parts @ [last parts] = parts"
    using splitOn_nonempty [of "CHR '' ''" "inputValue s"] by (simp add: parts_def)
  then have j: "joinWith '' '' (butlast parts @ [last parts]) = inputValue s"
    by (simp add: parts_def joinWith_splitOn)
  have one: "matches ! 0 = hd matches" if "length matches = 1"
    using that by (cases matches) simp_all
  from j one show ?thesis
    by (auto simp: handleTab_def Let_def parts_def [symmetric] matches_def [symmetric])
qed

text \<open>
  The theorem on one match, on two matches and on an empty last part.
\<close>

theorem tab_completes_single_match_witness:
  "last (splitOn CHR '' '' (inputValue (sampleState\<lparr>inputValue := ''cat re''\<rparr>))) = ''re'' \<and>
   sampleComplete ''re'' (currentPath (sampleState\<lparr>inputValue := ''cat re''\<rparr>)) =
     [''readme.txt''] \<and>
   handleTab sampleComplete (sampleState\<lparr>inputValue := ''cat re''\<rparr>) =
     (Some [''readme.txt''], sampleState\<lparr>inputValue := ''cat readme.txt''\<rparr>) \<and>
   sampleComplete ''do'' (currentPath (sampleState\<lparr>inputValue := ''cd do''\<rparr>)) =
     [''docs'', ''downloads''] \<and>
   handleTab sampleComplete (sampleState\<lparr>inputValue := ''cd do''\<rparr>) =
     (Some [''docs'', ''downloads''], sampleState\<lparr>inputValue := ''cd do''\<rparr>) \<and>
   last (splitOn CHR '' '' (inputValue (sampleState\<lparr>inputValue := ''cd ''\<rparr>))) = [] \<and>
   handleTab sampleComplete (sampleState\<lparr>inputValue := ''cd ''\<rparr>) =
     (None, sampleState\<lparr>inputValue := ''cd ''\<rparr>)"
proof -
  let ?a = "sampleState\<lparr>inputValue := ''cat re''\<rparr>"
  let ?b = "sampleState\<lparr>inputValue := ''cd do''\<rparr>"
  let ?c = "sampleState\<lparr>inputValue := ''cd ''\<rparr>"
  have pa: "splitOn CHR '' '' (inputValue ?a) = [''cat'', ''re'']" by simp
  have pb: "splitOn CHR '' '' (inputValue ?b) = [''cd'', ''do'']" by simp
  have pc: "splitOn CHR '' '' (inputValue ?c) = [''cd'', []]" by simp
  have ma: "sampleComplete ''re'' path = [''readme.txt'']" for path
    by (simp add: sampleComplete_def startsWith_def)
  have mb: "sampleComplete ''do'' path = [''docs'', ''downloads'']" for path
    by (simp add: sampleComplete_def startsWith_def)
  from tab_completes_single_match [where s = ?a and complete = sampleComplete]
  have ra: "handleTab sampleComplete ?a = (Some [''readme.txt''], ?a\<lparr>inputValue := ''cat readme.txt''\<rparr>)"
    unfolding pa by (simp add: ma)
  from tab_completes_single_match [where s = ?b and complete = sampleComplete]
  have rb: "handleTab sampleComplete ?b = (Some [''docs'', ''downloads''], ?b)"
    unfolding pb by (simp add: mb)
  from tab_completes_single_match [where s = ?c and complete = sampleComplete]
  have rc: "handleTab sampleComplete ?c = (None, ?c)"
    unfolding pc by simp
  from pa pb pc ma mb ra rb rc show ?thesis by (simp del: splitOn.simps)
qed

text \<open>
  Claim C8 as written does not hold. After \<open>cd\<close> and a space, in a directory with
  one child, the lookup for the empty last part would return exactly one name, and the
  input is left as it is: no lookup is made. With a TAB between \<open>cat\<close> and
  \<open>re\<close> the last white-space token \<open>re\<close> has exactly one completion, and the
  input is left as it is: the handler splits at spaces and looks the whole line up.
\<close>

theorem tab_ignores_empty_last_part:
  "last (splitOn CHR '' '' (inputValue (sampleState\<lparr>inputValue := ''cd ''\<rparr>))) = [] \<and>
   oneChildComplete []  (currentPath (sampleState\<lparr>inputValue := ''cd ''\<rparr>)) = [''docs''] \<and>
   handleTab oneChildComplete (sampleState\<lparr>inputValue := ''cd ''\<rparr>) =
     (None, sampleState\<lparr>inputValue := ''cd ''\<rparr>) \<and>
   tokens (''cat'' @ [CHR 0x09] @ ''re'') = [''cat'', ''re''] \<and>
   sampleComplete ''re'' (currentPath sampleState) = [''readme.txt''] \<and>
   handleTab sampleComplete (sampleState\<lparr>inputValue := ''cat'' @ [CHR 0x09] @ ''re''\<rparr>) =
     (Some [], sampleState\<lparr>inputValue := ''cat'' @ [CHR 0x09] @ ''re''\<rparr>)"
  by code_simp

subsection \<open>C9: cd .. at the root\<close>

text \<open>
  Claim C9. At the root, \<open>..\<close> resolves to the root and not to an error, \<open>cd ..\<close>
  executes with the root as new path, and the handler, given this filesystem, leaves
  \<open>currentPath\<close> at the root.
\<close>

theorem cd_parent_at_root_stays:
  assumes "root v = DirNode children"
  shows "resolvePath (root v) ''/'' ''..'' = Inr ''/'' \<and>
         execute v ''cd ..'' ''/'' = Some \<lparr>outputText = [], newPath = Some ''/''\<rparr> \<and>
         (currentPath s = ''/'' \<and> trim (inputValue s) = ''cd ..'' \<and> \<not> isProcessing s \<longrightarrow>
            fst (handleSendMessage (execute v) s) =
              FileSystem \<lparr>outputText = [], newPath = Some ''/''\<rparr> \<and>
            currentPath (snd (handleSendMessage (execute v) s)) = ''/'')"
proof -
  have r: "resolvePath (root v) ''/'' ''..'' = Inr ''/''" by (rule resolve_parent_of_root)
  have p: "splitPath ''/'' = []" by (simp add: splitPath_def)
  have e: "execute v ''cd ..'' ''/'' = Some \<lparr>outputText = [], newPath = Some ''/''\<rparr>"
    using assms by (simp add: execute_def tokens_cd_parent cd_def resolve_parent_of_root p)
  have l: "toLowerCase ''cd ..'' = ''cd ..''"
    by code_simp
  have "fst (handleSendMessage (execute v) s) =
            FileSystem \<lparr>outputText = [], newPath = Some ''/''\<rparr> \<and>
        currentPath (snd (handleSendMessage (execute v) s)) = ''/''"
    if "currentPath s = ''/''" "trim (inputValue s) = ''cd ..''" "\<not> isProcessing s"
    using that e l by (simp add: handleSendMessage_def Let_def startsWith_def)
  with r e show ?thesis by blast
qed

text \<open>
  The theorem on the sample filesystem.
\<close>

theorem cd_parent_at_root_stays_witness:
  "root sampleVfs =
     DirNode [(''home'', DirNode [(''operator'',
       DirNode [(''docs'', DirNode []), (''readme.txt'', FileNode ''hello'')])])] \<and>
   resolvePath (root sampleVfs) ''/'' ''..'' = Inr ''/'' \<and>
   execute sampleVfs ''cd ..'' ''/'' = Some \<lparr>outputText = [], newPath = Some ''/''\<rparr> \<and>
   currentPath (sampleState\<lparr>currentPath := ''/'', inputValue := ''cd ..''\<rparr>) = ''/'' \<and>
   trim (inputValue (sampleState\<lparr>currentPath := ''/'', inputValue := ''cd ..''\<rparr>)) = ''cd ..'' \<and>
   \<not> isProcessing (sampleState\<lparr>currentPath := ''/'', inputValue := ''cd ..''\<rparr>) \<and>
   fst (handleSendMessage (execute sampleVfs)
         (sampleState\<lparr>currentPath := ''/'', inputValue := ''cd ..''\<rparr>)) =
     FileSystem \<lparr>outputText = [], newPath = Some ''/''\<rparr> \<and>
   currentPath (snd (handleSendMessage (execute sampleVfs)
         (sampleState\<lparr>currentPath := ''/'', inputValue := ''cd ..''\<rparr>))) = ''/''"
proof -
  let ?s = "sampleState\<lparr>currentPath := ''/'', inputValue := ''cd ..''\<rparr>"
  have h: "root sampleVfs =
     DirNode [(''home'', DirNode [(''operator'',
       DirNode [(''docs'', DirNode []), (''readme.txt'', FileNode ''hello'')])])]"
    by (simp add: sampleVfs_def)
  have c: "currentPath ?s = ''/''" by simp
  have t: "trim (inputValue ?s) = ''cd ..''" by code_simp
  have p: "\<not> isProcessing ?s" by (simp add: sampleState_def)
  from cd_parent_at_root_stays [OF h, of ?s] h c t p show ?thesis by simp
qed

subsection \<open>C10: blank or busy submissions are ignored\<close>

text \<open>
  Claim C10. When the trimmed input is empty or a message is being processed, the handler
  takes no branch and returns the state as it was: history, messages, input field,
  timers and stream state included.
\<close>

theorem blank_or_busy_submit_ignored:
  "trim (inputValue s) = [] \<or> isProcessing s \<Longrightarrow> handleSendMessage fs s = (Ignored, s)"
  by (simp add: handleSendMessage_def)

text \<open>
  The theorem on an input of two spaces.
\<close>

theorem blank_or_busy_submit_ignored_witness:
  "(trim (inputValue (sampleState\<lparr>inputValue := ''  ''\<rparr>)) = [] \<or>
    isProcessing (sampleState\<lparr>inputValue := ''  ''\<rparr>)) \<and>
   handleSendMessage (execute sampleVfs) (sampleState\<lparr>inputValue := ''  ''\<rparr>) =
     (Ignored, sampleState\<lparr>inputValue := ''  ''\<rparr>)"
proof -
  have h: "trim (inputValue (sampleState\<lparr>inputValue := ''  ''\<rparr>)) = [] \<or>
      isProcessing (sampleState\<lparr>inputValue := ''  ''\<rparr>)"
    by (simp add: trim_def isWhiteSpace_def)
  from blank_or_busy_submit_ignored [OF h, of "execute sampleVfs"] h show ?thesis by simp
qed

end
